theory Spec2Isabelle
  imports Main
begin

section \<open>Characters as the regular-expression engine classifies them\<close>

definition is_space :: "char \<Rightarrow> bool" where
  "is_space ch = (let n = (of_char ch :: nat) in
     (9 \<le> n \<and> n \<le> 13) \<or> (28 \<le> n \<and> n \<le> 32) \<or> n = 133 \<or> n = 160)"

definition is_word :: "char \<Rightarrow> bool" where
  "is_word ch = (let n = (of_char ch :: nat) in
     (48 \<le> n \<and> n \<le> 57) \<or> (65 \<le> n \<and> n \<le> 90) \<or> n = 95 \<or> (97 \<le> n \<and> n \<le> 122) \<or>
     n = 170 \<or> n = 178 \<or> n = 179 \<or> n = 181 \<or> n = 185 \<or> n = 186 \<or>
     (188 \<le> n \<and> n \<le> 190) \<or> (192 \<le> n \<and> n \<le> 214) \<or> (216 \<le> n \<and> n \<le> 246) \<or>
     248 \<le> n)"

definition lower_chr :: "char \<Rightarrow> char" where
  "lower_chr ch = (let n = (of_char ch :: nat) in
     if (65 \<le> n \<and> n \<le> 90) \<or> (192 \<le> n \<and> n \<le> 214) \<or> (216 \<le> n \<and> n \<le> 222)
     then char_of (n + 32) else ch)"

section \<open>Regular expressions\<close>

record flags =
  ignorecase :: bool
  multiline :: bool
  dotall :: bool

datatype citem = CChr char | CRange char char | CWs

datatype cls = CLit char | CDot | CSpace | CNonSpace | CSet "citem list" | CNotSet "citem list"

datatype regex =
    One cls
  | Star cls
  | Plus cls
  | LazyStar cls
  | Seq regex regex
  | Alt regex regex
  | Grp nat regex
  | Bol
  | Eol
  | WordB
  | Ahead regex
  | Eps

fun citem_match :: "citem \<Rightarrow> char \<Rightarrow> bool" where
  "citem_match (CChr x) ch = (ch = x)"
| "citem_match (CRange lo hi) ch =
     ((of_char lo :: nat) \<le> of_char ch \<and> (of_char ch :: nat) \<le> of_char hi)"
| "citem_match CWs ch = is_space ch"

fun cls_match :: "flags \<Rightarrow> cls \<Rightarrow> char \<Rightarrow> bool" where
  "cls_match fl (CLit x) ch = (if ignorecase fl then lower_chr ch = lower_chr x else ch = x)"
| "cls_match fl CDot ch = (dotall fl \<or> ch \<noteq> CHR 0x0A)"
| "cls_match fl CSpace ch = is_space ch"
| "cls_match fl CNonSpace ch = (\<not> is_space ch)"
| "cls_match fl (CSet items) ch = list_ex (\<lambda>i. citem_match i ch) items"
| "cls_match fl (CNotSet items) ch = (\<not> list_ex (\<lambda>i. citem_match i ch) items)"

type_synonym groups = "(nat \<times> string) list"

fun greedy_splits :: "(char \<Rightarrow> bool) \<Rightarrow> string \<Rightarrow> (string \<times> string) list" where
  "greedy_splits P [] = [([], [])]"
| "greedy_splits P (x # xs) =
     (if P x then map (\<lambda>(t, r). (x # t, r)) (greedy_splits P xs) @ [([], x # xs)]
      else [([], x # xs)])"

fun lazy_splits :: "(char \<Rightarrow> bool) \<Rightarrow> string \<Rightarrow> (string \<times> string) list" where
  "lazy_splits P [] = [([], [])]"
| "lazy_splits P (x # xs) =
     (if P x then ([], x # xs) # map (\<lambda>(t, r). (x # t, r)) (lazy_splits P xs)
      else [([], x # xs)])"

fun rmatch :: "flags \<Rightarrow> regex \<Rightarrow> string \<Rightarrow> string \<Rightarrow> groups \<Rightarrow> (string \<times> string \<times> groups) list" where
  "rmatch fl (One k) b a g =
     (case a of [] \<Rightarrow> [] | x # xs \<Rightarrow> if cls_match fl k x then [([x], xs, g)] else [])"
| "rmatch fl (Star k) b a g = map (\<lambda>(t, r). (t, r, g)) (greedy_splits (cls_match fl k) a)"
| "rmatch fl (Plus k) b a g =
     map (\<lambda>(t, r). (t, r, g)) (filter (\<lambda>(t, r). t \<noteq> []) (greedy_splits (cls_match fl k) a))"
| "rmatch fl (LazyStar k) b a g = map (\<lambda>(t, r). (t, r, g)) (lazy_splits (cls_match fl k) a)"
| "rmatch fl (Seq r1 r2) b a g =
     concat (map (\<lambda>(t1, a1, g1).
        map (\<lambda>(t2, a2, g2). (t1 @ t2, a2, g2)) (rmatch fl r2 (rev t1 @ b) a1 g1))
       (rmatch fl r1 b a g))"
| "rmatch fl (Alt r1 r2) b a g = rmatch fl r1 b a g @ rmatch fl r2 b a g"
| "rmatch fl (Grp n r) b a g = map (\<lambda>(t, a', g'). (t, a', (n, t) # g')) (rmatch fl r b a g)"
| "rmatch fl Bol b a g =
     (if b = [] \<or> (multiline fl \<and> hd b = CHR 0x0A) then [([], a, g)] else [])"
| "rmatch fl Eol b a g =
     (if a = [] \<or> (if multiline fl then hd a = CHR 0x0A else a = [CHR 0x0A]) then [([], a, g)] else [])"
| "rmatch fl WordB b a g =
     (if (b \<noteq> [] \<and> is_word (hd b)) \<noteq> (a \<noteq> [] \<and> is_word (hd a)) then [([], a, g)] else [])"
| "rmatch fl (Ahead r) b a g =
     (case rmatch fl r b a g of [] \<Rightarrow> [] | (t, a', g') # _ \<Rightarrow> [([], a, g')])"
| "rmatch fl Eps b a g = [([], a, g)]"

definition lits :: "string \<Rightarrow> regex" where
  "lits s = foldr (\<lambda>ch r. Seq (One (CLit ch)) r) s Eps"

definition seqs :: "regex list \<Rightarrow> regex" where
  "seqs rs = foldr Seq rs Eps"

definition alts :: "regex list \<Rightarrow> regex" where
  "alts rs = foldr Alt (butlast rs) (last rs)"

section \<open>Scanning a text for successive matches\<close>

lemma greedy_splits_append: "(t, r) \<in> set (greedy_splits P a) \<Longrightarrow> a = t @ r"
  by (induction a arbitrary: t r) (auto split: if_splits)

lemma lazy_splits_append: "(t, r) \<in> set (lazy_splits P a) \<Longrightarrow> a = t @ r"
  by (induction a arbitrary: t r) (auto split: if_splits)

lemma rmatch_append: "(t, a', g') \<in> set (rmatch fl r b a g) \<Longrightarrow> a = t @ a'"
proof (induction r arbitrary: t a' g' b a g)
  case (Seq r1 r2)
  then show ?case by fastforce
next
  case (Ahead r)
  then show ?case by (auto split: list.splits)
qed (auto split: list.splits if_splits dest: greedy_splits_append lazy_splits_append)

datatype piece = Gap char | Hit string groups

definition first_match :: "flags \<Rightarrow> regex \<Rightarrow> bool \<Rightarrow> string \<Rightarrow> string \<Rightarrow> (string \<times> string \<times> groups) option" where
  "first_match fl r adv b a =
     (case filter (\<lambda>(t, a', g). \<not> (adv \<and> t = [])) (rmatch fl r b a []) of
        [] \<Rightarrow> None | m # _ \<Rightarrow> Some m)"

lemma first_match_mem:
  assumes "first_match fl r adv b a = Some m"
  shows "m \<in> set (rmatch fl r b a []) \<and> \<not> (adv \<and> fst m = [])"
proof (cases "filter (\<lambda>(t, a', g). \<not> (adv \<and> t = [])) (rmatch fl r b a [])")
  case Nil
  then show ?thesis using assms by (simp add: first_match_def)
next
  case (Cons x rest)
  then have "m = x" using assms by (simp add: first_match_def)
  moreover have "x \<in> set (filter (\<lambda>(t, a', g). \<not> (adv \<and> t = [])) (rmatch fl r b a []))"
    unfolding Cons by simp
  ultimately show ?thesis by (cases m) auto
qed

lemma first_match_append: "first_match fl r adv b a = Some (t, a', g) \<Longrightarrow> a = t @ a'"
  using first_match_mem rmatch_append by blast

lemma first_match_adv: "first_match fl r True b a = Some (t, a', g) \<Longrightarrow> t \<noteq> []"
  using first_match_mem by fastforce

function scan :: "flags \<Rightarrow> regex \<Rightarrow> bool \<Rightarrow> string \<Rightarrow> string \<Rightarrow> piece list" where
  "scan fl r adv b a =
     (case first_match fl r adv b a of
        Some (t, a', g) \<Rightarrow> Hit t g # scan fl r (t = []) (rev t @ b) a'
      | None \<Rightarrow> (case a of [] \<Rightarrow> [] | x # xs \<Rightarrow> Gap x # scan fl r False (x # b) xs))"
  by pat_completeness auto
termination
proof (relation "measure (\<lambda>(fl, r, adv, b, a). 2 * length a + (if adv then 0 else 1))")
  show "wf (measure (\<lambda>(fl, r, adv, b, a). 2 * length a + (if adv then 0 else 1)))" by simp
next
  fix fl r adv b a x2 t y a' g
  assume h: "first_match fl r adv b a = Some x2" "(t, y) = x2" "(a', g) = y"
  then have m: "first_match fl r adv b a = Some (t, a', g)" by simp
  have e: "a = t @ a'" using first_match_append [OF m] .
  have "adv \<Longrightarrow> t \<noteq> []" using m by (cases adv) (auto dest: first_match_adv)
  then show "((fl, r, t = [], rev t @ b, a'), (fl, r, adv, b, a))
      \<in> measure (\<lambda>(fl, r, adv, b, a). 2 * length a + (if adv then 0 else 1))"
    using e by (cases t) auto
next
  fix fl r adv b a x21 x22
  assume "first_match fl r adv b a = None" "a = x21 # x22"
  then show "((fl, r, False, x21 # b, x22), (fl, r, adv, b, a))
      \<in> measure (\<lambda>(fl, r, adv, b, a). 2 * length a + (if adv then 0 else 1))"
    by simp
qed

declare scan.simps [simp del]

definition group :: "groups \<Rightarrow> nat \<Rightarrow> string" where
  "group g n = (case map_of g n of None \<Rightarrow> [] | Some t \<Rightarrow> t)"

fun render :: "(string \<Rightarrow> groups \<Rightarrow> string) \<Rightarrow> piece \<Rightarrow> string" where
  "render repl (Gap x) = [x]"
| "render repl (Hit t g) = repl t g"

definition re_sub :: "flags \<Rightarrow> regex \<Rightarrow> (string \<Rightarrow> groups \<Rightarrow> string) \<Rightarrow> string \<Rightarrow> string" where
  "re_sub fl r repl s = concat (map (render repl) (scan fl r False [] s))"

fun hit_groups :: "piece \<Rightarrow> groups list" where
  "hit_groups (Gap x) = []"
| "hit_groups (Hit t g) = [g]"

definition re_findall :: "flags \<Rightarrow> regex \<Rightarrow> string \<Rightarrow> groups list" where
  "re_findall fl r s = concat (map hit_groups (scan fl r False [] s))"

section \<open>Patterns of the renamer\<close>

definition fM :: flags where
  "fM = \<lparr>ignorecase = False, multiline = True, dotall = False\<rparr>"

definition fI :: flags where
  "fI = \<lparr>ignorecase = True, multiline = False, dotall = False\<rparr>"

definition fMSI :: flags where
  "fMSI = \<lparr>ignorecase = True, multiline = True, dotall = True\<rparr>"

definition f0 :: flags where
  "f0 = \<lparr>ignorecase = False, multiline = False, dotall = False\<rparr>"

definition sym_tail :: cls where
  "sym_tail = CSet [CRange CHR ''A'' CHR ''Z'', CRange CHR ''0'' CHR ''9'', CChr CHR ''_'']"

definition config_pattern :: "string \<Rightarrow> regex" where
  "config_pattern symbol = seqs [Bol, Star CSpace,
     Grp 1 (alts [lits ''config'', lits ''menuconfig'']), Plus CSpace,
     Grp 2 (seqs [lits symbol, Star sym_tail]), Star CSpace, Eol]"

definition choice_pattern :: "string \<Rightarrow> regex" where
  "choice_pattern symbol = seqs [Bol, Star CSpace, lits ''choice'', Plus CSpace,
     Grp 1 (seqs [lits symbol, Star sym_tail]), Star CSpace, Eol]"

definition anchored :: "regex list \<Rightarrow> string \<Rightarrow> regex list \<Rightarrow> regex" where
  "anchored pre old post = seqs [Bol, Grp 1 (seqs pre), lits old, Grp 2 (seqs post), Eol]"

definition rule1 :: "string \<Rightarrow> regex" where
  "rule1 old = anchored [Star CSpace, alts [lits ''config'', lits ''menuconfig''], Plus CSpace]
     old [Star CSpace]"

definition rule2 :: "string \<Rightarrow> regex" where
  "rule2 old = anchored [Star CSpace, lits ''if'', Plus CSpace] old [Star CSpace]"

definition rule3 :: "string \<Rightarrow> regex" where
  "rule3 old = anchored [Star CSpace, lits ''endif'', Star CSpace, lits ''#'', Star CSpace]
     old [Star CSpace]"

definition rule4 :: "string \<Rightarrow> regex" where
  "rule4 old = seqs [
     Grp 1 (seqs [WordB, lits ''depends'', Plus CSpace, lits ''on'', Plus CSpace,
                  Star (CNotSet [CChr CHR ''#'', CChr CHR 0x0A]), WordB]),
     lits old, Grp 2 WordB]"

definition rule5 :: "string \<Rightarrow> regex" where
  "rule5 old = anchored [Star CSpace, lits ''select'', Plus CSpace] old [Star CSpace]"

definition multiline_depends_pattern :: regex where
  "multiline_depends_pattern = seqs [lits ''depends'', Plus CSpace, lits ''on'', Plus CSpace,
     LazyStar (CNotSet [CChr CHR ''#'']),
     Ahead (seqs [One (CLit CHR 0x0A), Star CSpace,
       alts [lits ''config'', lits ''menuconfig'', lits ''choice'', lits ''endchoice'',
             lits ''if'', lits ''endif'', lits ''help'', lits ''---help---'', lits ''default'',
             lits ''select'', lits ''range'', lits ''imply'', lits ''visible'',
             One CNonSpace, Eol]])]"

definition replace_multiline_depends :: "string \<Rightarrow> string \<Rightarrow> string \<Rightarrow> groups \<Rightarrow> string" where
  "replace_multiline_depends old new full_depends g =
     re_sub f0 (seqs [WordB, lits old, WordB]) (\<lambda>t g. new) full_depends"

definition rule7 :: "string \<Rightarrow> regex" where
  "rule7 old = anchored [Star CSpace, lits ''default'', Plus CSpace] old [Star CSpace]"

definition rule8 :: "string \<Rightarrow> regex" where
  "rule8 old = anchored [Star CSpace, lits ''choice'', Plus CSpace] old [Star CSpace]"

definition rule8b :: "string \<Rightarrow> regex" where
  "rule8b old = anchored [Star CSpace, lits ''choice'', Plus CSpace] old [WordB, LazyStar CDot]"

definition rule9 :: "string \<Rightarrow> regex" where
  "rule9 old = anchored [Star CSpace, lits ''imply'', Plus CSpace] old [Star CSpace]"

definition rule10 :: "string \<Rightarrow> regex" where
  "rule10 old = seqs [Grp 1 (seqs [WordB, lits ''if'', Plus CSpace]), lits old, Grp 2 WordB]"

definition rule11 :: "string \<Rightarrow> regex" where
  "rule11 old = anchored [Star CSpace, lits ''range'', Plus CSpace, Plus (CNotSet [CWs]), Plus CSpace]
     old [Star CSpace]"

definition rule11b :: "string \<Rightarrow> regex" where
  "rule11b old = anchored [Star CSpace, lits ''range'', Plus CSpace]
     old [Plus CSpace, Plus (CNotSet [CWs]), Star CSpace]"

definition rule12 :: "string \<Rightarrow> regex" where
  "rule12 old = seqs [
     Grp 1 (seqs [WordB, lits ''visible'', Plus CSpace, lits ''if'', Plus CSpace,
                  Star (CNotSet [CChr CHR ''#'', CChr CHR 0x0A]), WordB]),
     lits old, Grp 2 WordB]"

section \<open>Replacement templates\<close>

datatype re_error = InvalidGroupReference nat | TemplateEscape

definition is_digit :: "char \<Rightarrow> bool" where
  "is_digit ch = ((48::nat) \<le> of_char ch \<and> (of_char ch :: nat) \<le> 57)"

definition is_octdigit :: "char \<Rightarrow> bool" where
  "is_octdigit ch = ((48::nat) \<le> of_char ch \<and> (of_char ch :: nat) \<le> 55)"

definition digit_val :: "char \<Rightarrow> nat" where
  "digit_val ch = of_char ch - 48"

text \<open>
  The replacement argument of the line rules is the string \<^verbatim>\<open>r"\1" + new_symbol + r"\2"\<close>,
  which the engine parses as a template before it searches.  A digit at the head of
  \<open>new_symbol\<close> joins the \<^verbatim>\<open>\1\<close> in front of it: two octal digits give an octal
  character escape (and group 1 is no longer referenced), anything else gives a reference
  to a group between 10 and 19, which the patterns do not have.  A \<open>new_symbol\<close> with a
  backslash starts further escapes; such names are outside this model, which reports them
  as \<open>TemplateEscape\<close>.  The result is the pair (group 1 is used, literal text).
\<close>

definition parse_template :: "string \<Rightarrow> re_error + (bool \<times> string)" where
  "parse_template new_symbol =
     (if CHR 0x5C \<in> set new_symbol then Inl TemplateEscape
      else case new_symbol of
          [] \<Rightarrow> Inr (True, [])
        | d1 # rest \<Rightarrow>
            if is_digit d1 then
              (case rest of
                 [] \<Rightarrow> Inl (InvalidGroupReference (10 + digit_val d1))
               | d2 # rest' \<Rightarrow>
                   if is_octdigit d1 \<and> is_octdigit d2
                   then Inr (False, char_of (64 + 8 * digit_val d1 + digit_val d2) # rest')
                   else Inl (InvalidGroupReference (10 + digit_val d1)))
            else Inr (True, new_symbol))"

definition expand :: "bool \<times> string \<Rightarrow> string \<Rightarrow> groups \<Rightarrow> string" where
  "expand tpl t g = (if fst tpl then group g 1 else []) @ snd tpl @ group g 2"

section \<open>The context rewriter\<close>

definition rename_one :: "string \<Rightarrow> string \<Rightarrow> bool \<times> string \<Rightarrow> string \<Rightarrow> string" where
  "rename_one old_symbol new_symbol tpl content =
    (let content = re_sub fM (rule1 old_symbol) (expand tpl) content;
         content = re_sub fM (rule2 old_symbol) (expand tpl) content;
         content = re_sub fM (rule3 old_symbol) (expand tpl) content;
         content = re_sub fI (rule4 old_symbol) (expand tpl) content;
         content = re_sub fM (rule5 old_symbol) (expand tpl) content;
         content = re_sub fMSI multiline_depends_pattern
                     (replace_multiline_depends old_symbol new_symbol) content;
         content = re_sub fM (rule7 old_symbol) (expand tpl) content;
         content = re_sub fM (rule8 old_symbol) (expand tpl) content;
         content = re_sub fM (rule8b old_symbol) (expand tpl) content;
         content = re_sub fM (rule9 old_symbol) (expand tpl) content;
         content = re_sub fI (rule10 old_symbol) (expand tpl) content;
         content = re_sub fM (rule11 old_symbol) (expand tpl) content;
         content = re_sub fM (rule11b old_symbol) (expand tpl) content;
         content = re_sub fI (rule12 old_symbol) (expand tpl) content
     in content)"

fun rename_content :: "(string \<times> string) list \<Rightarrow> string \<Rightarrow> re_error + string" where
  "rename_content [] content = Inr content"
| "rename_content ((old_symbol, new_symbol) # mappings) content =
     (case parse_template new_symbol of
        Inl e \<Rightarrow> Inl e
      | Inr tpl \<Rightarrow> rename_content mappings (rename_one old_symbol new_symbol tpl content))"

section \<open>Whole-word occurrences of a symbol\<close>






section \<open>Files, log and renamer state\<close>

datatype level = INFO | WARNING | ERROR

datatype fs_op =
    Write string string
  | TempCreate string
  | TempRemove
  | SedInPlace bool string "string list"

text \<open>
  One record holds what the renamer reads and changes.  \<open>walk root_dir\<close> lists the
  (directory, file name) pairs in the order \<^verbatim>\<open>os.walk\<close> yields them; \<open>texts path\<close> is
  the text \<^verbatim>\<open>open(path).read()\<close> returns, \<open>None\<close> when opening or decoding raises;
  \<open>read_only path\<close> says that opening the path for writing raises; \<open>ops\<close> is the trace of
  every mutation of the file system.  \<open>log\<close> holds the records at level INFO and above
  (the logger is configured at INFO, so \<^verbatim>\<open>logger.debug\<close> calls leave no record); the
  text of a caught exception is left out of the messages.
\<close>

record state =
  walk :: "string \<Rightarrow> (string \<times> string) list"
  texts :: "string \<Rightarrow> string option"
  read_only :: "string \<Rightarrow> bool"
  ops :: "fs_op list"
  dry_run :: bool
  changes_made :: "string list"
  log :: "(level \<times> string) list"

datatype 'a outcome = Returned 'a | Raised re_error

definition say :: "level \<Rightarrow> string \<Rightarrow> state \<Rightarrow> state" where
  "say lvl msg st = st\<lparr>log := log st @ [(lvl, msg)]\<rparr>"

function show_nat :: "nat \<Rightarrow> string" where
  "show_nat n = (if n < 10 then [char_of (48 + n)] else show_nat (n div 10) @ [char_of (48 + n mod 10)])"
  by pat_completeness auto
termination
  by (relation "measure id") auto

declare show_nat.simps [simp del]

definition startswith :: "string \<Rightarrow> string \<Rightarrow> bool" where
  "startswith s pre = (take (length pre) s = pre)"

definition endswith :: "string \<Rightarrow> string \<Rightarrow> bool" where
  "endswith s suf = (length suf \<le> length s \<and> drop (length s - length suf) s = suf)"

definition path_join :: "string \<Rightarrow> string \<Rightarrow> string" where
  "path_join root file =
     (if root = [] \<or> last root = CHR ''/'' then root @ file else root @ ''/'' @ file)"

definition is_kconfig_name :: "string \<Rightarrow> bool" where
  "is_kconfig_name file = (file = ''Kconfig'' \<or> startswith file ''Kconfig.'')"

definition is_source_name :: "string \<Rightarrow> bool" where
  "is_source_name file =
     (endswith file ''.c'' \<or> endswith file ''.h'' \<or> file = ''CMakeLists.txt'')"

section \<open>Subsymbol discovery\<close>

text \<open>
  \<open>find_all_subsymbols\<close> returns the symbols in the order they are found; the source
  collects them in a set, which is \<open>set\<close> of this list.
\<close>

definition symbols_in :: "string \<Rightarrow> string \<Rightarrow> string list" where
  "symbols_in symbol content =
     map (\<lambda>g. group g 2) (re_findall fM (config_pattern symbol) content) @
     map (\<lambda>g. group g 1) (re_findall fM (choice_pattern symbol) content)"

fun scan_files :: "string \<Rightarrow> string list \<Rightarrow> state \<Rightarrow> string list \<times> state" where
  "scan_files symbol [] st = ([], st)"
| "scan_files symbol (kconfig_file # files) st =
     (case texts st kconfig_file of
        None \<Rightarrow> scan_files symbol files (say WARNING (''Could not read '' @ kconfig_file) st)
      | Some content \<Rightarrow>
          (let (found, st') = scan_files symbol files st
           in (symbols_in symbol content @ found, st')))"

definition find_all_subsymbols :: "string \<Rightarrow> string \<Rightarrow> state \<Rightarrow> string list \<times> state" where
  "find_all_subsymbols symbol root_dir st =
     scan_files symbol
       (map (\<lambda>(root, file). path_join root file)
          (filter (\<lambda>(root, file). is_kconfig_name file) (walk st root_dir))) st"

section \<open>Rewriting the configuration files\<close>

definition rename_in_kconfig_file ::
    "string \<Rightarrow> (string \<times> string) list \<Rightarrow> state \<Rightarrow> bool outcome \<times> state" where
  "rename_in_kconfig_file filepath mappings st =
     (if dry_run st then (Returned True, st)
      else case texts st filepath of
          None \<Rightarrow> (Returned False, say ERROR (''Could not read '' @ filepath) st)
        | Some original_content \<Rightarrow>
            (case rename_content mappings original_content of
               Inl e \<Rightarrow> (Raised e, st)
             | Inr content \<Rightarrow>
                 if content \<noteq> original_content then
                   (if read_only st filepath
                    then (Returned False, say ERROR (''Could not write '' @ filepath) st)
                    else (Returned True,
                          (say INFO (''Updated Kconfig file: '' @ filepath)
                             (st\<lparr>texts := (texts st)(filepath \<mapsto> content),
                                 ops := ops st @ [Write filepath content]\<rparr>))
                          \<lparr>changes_made := changes_made st @ [''Updated Kconfig file: '' @ filepath]\<rparr>))
                 else (Returned False, st)))"

fun rename_each :: "string list \<Rightarrow> (string \<times> string) list \<Rightarrow> nat \<Rightarrow> state \<Rightarrow> nat outcome \<times> state" where
  "rename_each [] mappings processed_count st = (Returned processed_count, st)"
| "rename_each (kconfig_file # files) mappings processed_count st =
     (case rename_in_kconfig_file kconfig_file mappings st of
        (Raised e, st') \<Rightarrow> (Raised e, st')
      | (Returned changed, st') \<Rightarrow>
          rename_each files mappings (if changed then processed_count + 1 else processed_count) st')"

definition process_kconfig_files_with_python ::
    "string list \<Rightarrow> (string \<times> string) list \<Rightarrow> state \<Rightarrow> nat outcome \<times> state" where
  "process_kconfig_files_with_python kconfig_files mappings st =
     (if kconfig_files = [] then (Returned 0, st)
      else if dry_run st then
        (Returned (length kconfig_files),
         say INFO (''DRY RUN: Would process '' @ show_nat (length kconfig_files) @
                   '' Kconfig files with Python'') st)
      else
        (case rename_each kconfig_files mappings 0
                (say INFO (''Processing '' @ show_nat (length kconfig_files) @
                           '' Kconfig files with Python'') st) of
           (Raised e, st') \<Rightarrow> (Raised e, st')
         | (Returned processed_count, st') \<Rightarrow>
             (Returned processed_count,
              say INFO (''Updated '' @ show_nat processed_count @ '' Kconfig files'') st')))"

section \<open>The pass over the source files\<close>

datatype sed_result = Exit int | TimeoutExpired | OtherError

text \<open>
  What the program does not decide itself is a parameter: whether \<^verbatim>\<open>sed --version\<close>
  succeeds, what one \<^verbatim>\<open>sed -i\<close> run (extended or basic, script, files) returns and does
  to the texts, and the order in which the interpreter iterates the set of subsymbols
  (\<open>set_order xs\<close> enumerates \<open>set xs\<close> without repetition).
\<close>

record env =
  sed_version_ok :: bool
  sed_run :: "bool \<Rightarrow> string \<Rightarrow> string list \<Rightarrow> (string \<Rightarrow> string option)
              \<Rightarrow> sed_result \<times> (string \<Rightarrow> string option)"
  set_order :: "string list \<Rightarrow> string list"

definition replace_chr :: "char \<Rightarrow> string \<Rightarrow> string \<Rightarrow> string" where
  "replace_chr x by s = concat (map (\<lambda>ch. if ch = x then by else [ch]) s)"

fun join_lines :: "string list \<Rightarrow> string" where
  "join_lines [] = []"
| "join_lines [l] = l"
| "join_lines (l # ls) = l @ [CHR 0x0A] @ join_lines ls"

definition create_sed_script_for_source :: "(string \<times> string) list \<Rightarrow> string" where
  "create_sed_script_for_source mappings =
     join_lines (map (\<lambda>(old_symbol, new_symbol).
        ''s/'' @ [CHR 0x5C] @ ''<'' @ replace_chr CHR ''/'' ([CHR 0x5C] @ ''/'') (''CONFIG_'' @ old_symbol) @
        [CHR 0x5C] @ ''>/'' @
        replace_chr CHR ''/'' ([CHR 0x5C] @ ''/'')
          (replace_chr CHR ''&'' ([CHR 0x5C] @ ''&'') (''CONFIG_'' @ new_symbol)) @ ''/g'')
       mappings)"

function chunks :: "string list \<Rightarrow> string list list" where
  "chunks files = (if files = [] then [] else take 100 files # chunks (drop 100 files))"
  by pat_completeness auto
termination
  by (relation "measure length") auto

declare chunks.simps [simp del]

fun sed_attempts ::
    "env \<Rightarrow> string \<Rightarrow> string \<Rightarrow> bool \<Rightarrow> string list \<Rightarrow> bool list \<Rightarrow> state \<Rightarrow> nat \<times> state" where
  "sed_attempts ev sed_script file_type use_simple chunk [] st = (0, st)"
| "sed_attempts ev sed_script file_type use_simple chunk (use_extended # later) st =
     (let ext = (use_extended \<and> \<not> use_simple);
          (res, tx) = sed_run ev ext sed_script chunk (texts st);
          st1 = st\<lparr>texts := tx, ops := ops st @ [SedInPlace ext sed_script chunk]\<rparr>
      in case res of
           Exit returncode \<Rightarrow>
             if returncode = 0 then (length chunk, st1)
             else if use_extended
               then sed_attempts ev sed_script file_type use_simple chunk later st1
               else sed_attempts ev sed_script file_type use_simple chunk later
                      (say ERROR ''sed failed for chunk'' st1)
         | TimeoutExpired \<Rightarrow>
             (0, say ERROR (''sed timed out processing '' @ file_type @ '' files chunk'') st1)
         | OtherError \<Rightarrow>
             (0, say ERROR (''Error running sed on '' @ file_type @ '' files'') st1))"

fun sed_chunks ::
    "env \<Rightarrow> string \<Rightarrow> string \<Rightarrow> bool \<Rightarrow> string list list \<Rightarrow> nat \<Rightarrow> state \<Rightarrow> nat \<times> state" where
  "sed_chunks ev sed_script file_type use_simple [] processed_count st = (processed_count, st)"
| "sed_chunks ev sed_script file_type use_simple (chunk # later) processed_count st =
     (let (n, st') = sed_attempts ev sed_script file_type use_simple chunk [True, False] st
      in sed_chunks ev sed_script file_type use_simple later (processed_count + n) st')"

definition process_files_with_sed ::
    "env \<Rightarrow> string list \<Rightarrow> string \<Rightarrow> string \<Rightarrow> bool \<Rightarrow> state \<Rightarrow> nat \<times> state" where
  "process_files_with_sed ev files sed_script file_type use_simple st =
     (if files = [] \<or> sed_script = [] then (0, st)
      else if dry_run st then
        (length files,
         say INFO (''Sed script would be:'' @ [CHR 0x0A] @ sed_script)
           (say INFO (''DRY RUN: Would process '' @ show_nat (length files) @ '' '' @ file_type @
                      '' files with sed'') st))
      else
        (let st1 = say INFO (''Processing '' @ show_nat (length files) @ '' '' @ file_type @
                             '' files with sed'') st
         in if \<not> sed_version_ok ev
            then (0, say ERROR ''sed not available! Please install sed'' st1)
            else
              (let st2 = st1\<lparr>ops := ops st1 @ [TempCreate sed_script]\<rparr>;
                   (processed_count, st3) =
                      sed_chunks ev sed_script file_type use_simple (chunks files) 0 st2;
                   st4 = st3\<lparr>ops := ops st3 @ [TempRemove]\<rparr>
               in (processed_count,
                   if processed_count > 0
                   then st4\<lparr>changes_made := changes_made st4 @
                          [''Processed '' @ show_nat processed_count @ '' '' @ file_type @
                           '' files with sed'']\<rparr>
                   else st4))))"

section \<open>Orchestration\<close>

definition find_files_to_process :: "string \<Rightarrow> state \<Rightarrow> string list \<times> string list" where
  "find_files_to_process root_dir st =
     (map (\<lambda>(root, file). path_join root file)
        (filter (\<lambda>(root, file). is_kconfig_name file) (walk st root_dir)),
      map (\<lambda>(root, file). path_join root file)
        (filter (\<lambda>(root, file). \<not> is_kconfig_name file \<and> is_source_name file) (walk st root_dir)))"

fun dict_set :: "string \<Rightarrow> string \<Rightarrow> (string \<times> string) list \<Rightarrow> (string \<times> string) list" where
  "dict_set k v [] = [(k, v)]"
| "dict_set k v ((k', v') # m) = (if k' = k then (k', v) # m else (k', v') # dict_set k v m)"

fun build_mappings :: "string \<Rightarrow> string \<Rightarrow> string list \<Rightarrow> (string \<times> string) list \<Rightarrow> (string \<times> string) list" where
  "build_mappings old_symbol new_symbol [] mappings = mappings"
| "build_mappings old_symbol new_symbol (symbol # subsymbols) mappings =
     build_mappings old_symbol new_symbol subsymbols
       (if startswith symbol old_symbol
        then dict_set symbol (new_symbol @ drop (length old_symbol) symbol) mappings
        else mappings)"

fun log_mappings :: "(string \<times> string) list \<Rightarrow> state \<Rightarrow> state" where
  "log_mappings [] st = st"
| "log_mappings ((old, new) # m) st = log_mappings m (say INFO (''  '' @ old @ '' -> '' @ new) st)"

definition rename_symbol :: "env \<Rightarrow> string \<Rightarrow> string \<Rightarrow> string \<Rightarrow> state \<Rightarrow> unit outcome \<times> state" where
  "rename_symbol ev old_symbol new_symbol root_dir st =
     (let st1 = say INFO (''Finding all subsymbols of '' @ old_symbol)
                  (say INFO (''Renaming symbol '' @ old_symbol @ '' to '' @ new_symbol) st);
          (found, st2) = find_all_subsymbols old_symbol root_dir st1;
          mappings = build_mappings old_symbol new_symbol (set_order ev found) []
      in if mappings = []
         then (Returned (), say WARNING (''No symbols found starting with '' @ old_symbol) st2)
         else
           (let st3 = log_mappings mappings
                        (say INFO (''Found '' @ show_nat (length mappings) @ '' symbols to rename:'') st2);
                (kconfig_files, source_files) = find_files_to_process root_dir st3;
                st4 = say INFO (''Processing '' @ show_nat (length kconfig_files) @
                                '' Kconfig files and '' @ show_nat (length source_files) @
                                '' source files'') st3
            in case process_kconfig_files_with_python kconfig_files mappings st4 of
                 (Raised e, st5) \<Rightarrow> (Raised e, st5)
               | (Returned kconfig_processed, st5) \<Rightarrow>
                   (let (source_processed, st6) =
                          process_files_with_sed ev source_files
                            (create_sed_script_for_source mappings) ''source'' False st5
                    in (Returned (),
                        say INFO (''Symbol renaming complete. Processed '' @
                                  show_nat kconfig_processed @ '' Kconfig files and '' @
                                  show_nat source_processed @ '' source files.'') st6))))"

section \<open>The mapping file\<close>

definition strip :: "string \<Rightarrow> string" where
  "strip s = rev (dropWhile is_space (rev (dropWhile is_space s)))"

fun split_first :: "string \<Rightarrow> string \<Rightarrow> (string \<times> string) option" where
  "split_first sep [] = (if sep = [] then Some ([], []) else None)"
| "split_first sep (x # xs) =
     (if startswith (x # xs) sep then Some ([], drop (length sep) (x # xs))
      else map_option (\<lambda>(l, r). (x # l, r)) (split_first sep xs))"

fun readlines :: "string \<Rightarrow> string list" where
  "readlines [] = []"
| "readlines (x # xs) =
     (if x = CHR 0x0A then [x] # readlines xs
      else case readlines xs of [] \<Rightarrow> [[x]] | l # ls \<Rightarrow> (x # l) # ls)"

datatype parsed = Skipped | InvalidFormat | EmptySymbol | Mapping string string

definition parse_line :: "string \<Rightarrow> parsed" where
  "parse_line raw =
     (let line = strip raw
      in if line = [] \<or> startswith line ''#'' then Skipped
         else case split_first '' -> '' line of
             None \<Rightarrow> InvalidFormat
           | Some (l, r) \<Rightarrow>
               (let old_symbol = strip l; new_symbol = strip r
                in if old_symbol = [] \<or> new_symbol = [] then EmptySymbol
                   else Mapping old_symbol new_symbol))"

fun rename_lines :: "env \<Rightarrow> string \<Rightarrow> nat \<Rightarrow> string list \<Rightarrow> state \<Rightarrow> unit outcome \<times> state" where
  "rename_lines ev root_dir line_num [] st = (Returned (), st)"
| "rename_lines ev root_dir line_num (line # lines) st =
     (case parse_line line of
        Skipped \<Rightarrow> rename_lines ev root_dir (line_num + 1) lines st
      | InvalidFormat \<Rightarrow>
          rename_lines ev root_dir (line_num + 1) lines
            (say WARNING (''Invalid format on line '' @ show_nat line_num @ '': '' @ strip line) st)
      | EmptySymbol \<Rightarrow>
          rename_lines ev root_dir (line_num + 1) lines
            (say WARNING (''Empty symbol on line '' @ show_nat line_num @ '': '' @ strip line) st)
      | Mapping old_symbol new_symbol \<Rightarrow>
          (case rename_symbol ev old_symbol new_symbol root_dir
                  (say INFO (''Processing mapping: '' @ old_symbol @ '' -> '' @ new_symbol) st) of
             (Raised e, st') \<Rightarrow> (Raised e, st')
           | (Returned u, st') \<Rightarrow> rename_lines ev root_dir (line_num + 1) lines st'))"

definition rename_from_mapping_file :: "env \<Rightarrow> string \<Rightarrow> string \<Rightarrow> state \<Rightarrow> unit outcome \<times> state" where
  "rename_from_mapping_file ev mapping_file root_dir st =
     (case texts st mapping_file of
        None \<Rightarrow> (Returned (), say ERROR (''Could not read mapping file '' @ mapping_file) st)
      | Some content \<Rightarrow> rename_lines ev root_dir 1 (readlines content) st)"

section \<open>Frames\<close>

text \<open>
  \<open>only_log st st'\<close>: the two states agree on the file system, on the trace of its
  mutations, on the change log and on the dry-run flag; at most their logs differ.
\<close>

definition only_log :: "state \<Rightarrow> state \<Rightarrow> bool" where
  "only_log st st' =
     (walk st' = walk st \<and> texts st' = texts st \<and> read_only st' = read_only st \<and>
      ops st' = ops st \<and> dry_run st' = dry_run st \<and> changes_made st' = changes_made st)"


section \<open>Example inputs\<close>

definition one_file :: "string \<Rightarrow> state" where
  "one_file content =
     \<lparr>walk = (\<lambda>root_dir. [(''.'', ''Kconfig'')]),
      texts = (\<lambda>path. if path = ''./Kconfig'' then Some content else None),
      read_only = (\<lambda>path. False), ops = [], dry_run = False, changes_made = [], log = []\<rparr>"

definition two_files :: "bool \<Rightarrow> state" where
  "two_files dry =
     \<lparr>walk = (\<lambda>root_dir. [(''.'', ''Kconfig''), (''./sub'', ''Kconfig'')]),
      texts = (\<lambda>path. if path = ''./Kconfig'' then Some ''config FOO\<newline>''
                      else if path = ''./sub/Kconfig'' then Some ''config X\<newline>''
                      else None),
      read_only = (\<lambda>path. False), ops = [], dry_run = dry, changes_made = [], log = []\<rparr>"

definition quiet_env :: env where
  "quiet_env = \<lparr>sed_version_ok = True, sed_run = (\<lambda>ext script files tx. (Exit 0, tx)),
                set_order = remdups\<rparr>"

section \<open>Properties of the matcher and of the patterns\<close>

lemma greedy_splits_set:
  "set (greedy_splits P a) = {(t, r). a = t @ r \<and> (\<forall>c\<in>set t. P c)}"
proof (induction a)
  case Nil
  then show ?case by auto
next
  case (Cons x xs)
  show ?case
  proof (cases "P x")
    case True
    have "set (greedy_splits P (x # xs)) = (\<lambda>(t, r). (x # t, r)) ` set (greedy_splits P xs) \<union> {([], x # xs)}"
      using True by simp
    also have "\<dots> = {(t, r). x # xs = t @ r \<and> (\<forall>c\<in>set t. P c)}"
      unfolding Cons.IH using True by (auto simp: Cons_eq_append_conv)
    finally show ?thesis .
  next
    case False
    then show ?thesis by (auto simp: Cons_eq_append_conv)
  qed
qed

lemma lazy_splits_set:
  "set (lazy_splits P a) = {(t, r). a = t @ r \<and> (\<forall>c\<in>set t. P c)}"
proof (induction a)
  case Nil
  then show ?case by auto
next
  case (Cons x xs)
  show ?case
  proof (cases "P x")
    case True
    have "set (lazy_splits P (x # xs)) = (\<lambda>(t, r). (x # t, r)) ` set (lazy_splits P xs) \<union> {([], x # xs)}"
      using True by simp
    also have "\<dots> = {(t, r). x # xs = t @ r \<and> (\<forall>c\<in>set t. P c)}"
      unfolding Cons.IH using True by (auto simp: Cons_eq_append_conv)
    finally show ?thesis .
  next
    case False
    then show ?thesis by (auto simp: Cons_eq_append_conv)
  qed
qed

lemma mem_One:
  "(t, a', g') \<in> set (rmatch fl (One k) b a g) \<longleftrightarrow>
     (\<exists>x. a = x # a' \<and> t = [x] \<and> cls_match fl k x \<and> g' = g)"
  by (cases a) auto

lemma mem_Star:
  "(t, a', g') \<in> set (rmatch fl (Star k) b a g) \<longleftrightarrow>
     (a = t @ a' \<and> (\<forall>c\<in>set t. cls_match fl k c) \<and> g' = g)"
  by (auto simp: greedy_splits_set)

lemma mem_Plus:
  "(t, a', g') \<in> set (rmatch fl (Plus k) b a g) \<longleftrightarrow>
     (a = t @ a' \<and> t \<noteq> [] \<and> (\<forall>c\<in>set t. cls_match fl k c) \<and> g' = g)"
  by (auto simp: greedy_splits_set)

lemma mem_LazyStar:
  "(t, a', g') \<in> set (rmatch fl (LazyStar k) b a g) \<longleftrightarrow>
     (a = t @ a' \<and> (\<forall>c\<in>set t. cls_match fl k c) \<and> g' = g)"
  by (auto simp: lazy_splits_set)

lemma mem_Seq:
  "(t, a', g') \<in> set (rmatch fl (Seq r1 r2) b a g) \<longleftrightarrow>
     (\<exists>t1 a1 g1 t2. (t1, a1, g1) \<in> set (rmatch fl r1 b a g) \<and>
        (t2, a', g') \<in> set (rmatch fl r2 (rev t1 @ b) a1 g1) \<and> t = t1 @ t2)"
  by force

lemma mem_Alt:
  "(t, a', g') \<in> set (rmatch fl (Alt r1 r2) b a g) \<longleftrightarrow>
     (t, a', g') \<in> set (rmatch fl r1 b a g) \<or> (t, a', g') \<in> set (rmatch fl r2 b a g)"
  by simp

lemma mem_Grp:
  "(t, a', g') \<in> set (rmatch fl (Grp n r) b a g) \<longleftrightarrow>
     (\<exists>g0. (t, a', g0) \<in> set (rmatch fl r b a g) \<and> g' = (n, t) # g0)"
  by force


lemma mem_Eol:
  "(t, a', g') \<in> set (rmatch fl Eol b a g) \<longleftrightarrow>
     (t = [] \<and> a' = a \<and> g' = g \<and>
      (a = [] \<or> (if multiline fl then hd a = CHR 0x0A else a = [CHR 0x0A])))"
  by auto



lemma mem_Eps:
  "(t, a', g') \<in> set (rmatch fl Eps b a g) \<longleftrightarrow> (t = [] \<and> a' = a \<and> g' = g)"
  by auto

lemma seqs_Nil: "seqs [] = Eps" by (simp add: seqs_def)
lemma seqs_Cons: "seqs (r # rs) = Seq r (seqs rs)" by (simp add: seqs_def)
lemma lits_Nil: "lits [] = Eps" by (simp add: lits_def)
lemma lits_Cons: "lits (x # xs) = Seq (One (CLit x)) (lits xs)" by (simp add: lits_def)
lemma alts_one: "alts [r] = r" by (simp add: alts_def)
lemma alts_Cons: "alts (r # r' # rs) = Alt r (alts (r' # rs))" by (simp add: alts_def)

lemma mem_lits:
  "(t, a', g') \<in> set (rmatch fl (lits s) b a g) \<longleftrightarrow>
     (a = t @ a' \<and> g' = g \<and> list_all2 (\<lambda>x c. cls_match fl (CLit x) c) s t)"
proof (induction s arbitrary: t b a g)
  case Nil
  then show ?case by (auto simp: lits_Nil)
next
  case (Cons x xs)
  show ?case
    unfolding lits_Cons mem_Seq mem_One Cons.IH
    by (auto simp: list_all2_Cons1 simp del: cls_match.simps)
qed











lemma scan_hits:
  "Hit t g \<in> set (scan fl r adv b a) \<Longrightarrow>
     \<exists>b' a' a''. rev b' @ a' = rev b @ a \<and> (t, a'', g) \<in> set (rmatch fl r b' a' [])"
proof (induction fl r adv b a rule: scan.induct)
  case (1 fl r adv b a)
  note sc = scan.simps [of fl r adv b a]
  show ?case
  proof (cases "first_match fl r adv b a")
    case None
    show ?thesis
    proof (cases a)
      case Nil
      then show ?thesis using None "1.prems" sc by simp
    next
      case (Cons x xs)
      then have "Hit t g \<in> set (scan fl r False (x # b) xs)"
        using None "1.prems" sc by simp
      then show ?thesis using "1.IH"(1) [OF None Cons] Cons by simp
    qed
  next
    case (Some m)
    obtain t0 a0 g0 where m: "m = (t0, a0, g0)" by (cases m) auto
    have mem: "(t0, a0, g0) \<in> set (rmatch fl r b a [])"
      using first_match_mem [OF Some] m by simp
    have a: "a = t0 @ a0" using rmatch_append [OF mem] .
    from "1.prems" Some m
    consider "t = t0 \<and> g = g0" | "Hit t g \<in> set (scan fl r (t0 = []) (rev t0 @ b) a0)"
      by (auto simp: sc)
    then show ?thesis
    proof cases
      case 1
      then show ?thesis using mem by blast
    next
      case 2
      then show ?thesis using "1.IH"(2) [OF Some m [symmetric] refl] a by simp
    qed
  qed
qed




lemma all2_eq: "list_all2 (\<lambda>x c. c = x) old w \<longleftrightarrow> w = old"
  by (induction old arbitrary: w) (auto simp: list_all2_Cons1)

lemma all2_exact: "list_all2 (\<lambda>x c. cls_match fM (CLit x) c) old w \<longleftrightarrow> w = old"
  by (simp add: fM_def all2_eq)































lemma findall_mem:
  assumes "g \<in> set (re_findall fl r s)"
  shows "\<exists>b a t a'. rev b @ a = s \<and> (t, a', g) \<in> set (rmatch fl r b a [])"
proof -
  from assms obtain pc where "pc \<in> set (scan fl r False [] s)" "g \<in> set (hit_groups pc)"
    unfolding re_findall_def by auto
  have "g \<in> set (hit_groups pc)" by fact
  then obtain t where "pc = Hit t g"
    by (cases pc) auto
  then have "Hit t g \<in> set (scan fl r False [] s)"
    using \<open>pc \<in> set (scan fl r False [] s)\<close> by simp
  from scan_hits [OF this] show ?thesis by auto
qed

lemma group_hd: "group ((n, t) # g) n = t"
  by (simp add: group_def)

lemma seqs_ConsD:
  assumes "(t, a', g') \<in> set (rmatch fl (seqs (r # rs)) b a g)"
  shows "\<exists>t1 t2 g1. (t1, t2 @ a', g1) \<in> set (rmatch fl r b a g) \<and>
    (t2, a', g') \<in> set (rmatch fl (seqs rs) (rev t1 @ b) (t2 @ a') g1) \<and>
    t = t1 @ t2 \<and> a = t1 @ t2 @ a'"
proof -
  from assms obtain t1 a1 g1 t2 where
      1: "(t1, a1, g1) \<in> set (rmatch fl r b a g)"
    and 2: "(t2, a', g') \<in> set (rmatch fl (seqs rs) (rev t1 @ b) a1 g1)"
    and 3: "t = t1 @ t2"
    unfolding seqs_Cons mem_Seq by blast
  have "a1 = t2 @ a'" using rmatch_append [OF 2] .
  moreover have "a = t1 @ a1" using rmatch_append [OF 1] .
  ultimately show ?thesis using 1 2 3 by blast
qed

lemma config_shape:
  assumes "(t, a', g') \<in> set (rmatch fM (config_pattern symbol) b a [])"
  shows "\<exists>ws1 kw ws2 tail ws3. a = ws1 @ kw @ ws2 @ group g' 2 @ ws3 @ a' \<and>
           (b = [] \<or> hd b = CHR 0x0A) \<and> kw \<in> {''config'', ''menuconfig''} \<and>
           list_all is_space ws1 \<and> ws2 \<noteq> [] \<and> list_all is_space ws2 \<and> list_all is_space ws3 \<and>
           group g' 2 = symbol @ tail \<and> list_all (cls_match fM sym_tail) tail \<and>
           (a' = [] \<or> hd a' = CHR 0x0A)"
proof -
  from assms obtain u0 r0 h0 where
      bol: "(u0, r0 @ a', h0) \<in> set (rmatch fM Bol b a [])"
    and m1: "(r0, a', g') \<in> set (rmatch fM (seqs [Star CSpace,
         Grp 1 (alts [lits ''config'', lits ''menuconfig'']), Plus CSpace,
         Grp 2 (seqs [lits symbol, Star sym_tail]), Star CSpace, Eol]) (rev u0 @ b) (r0 @ a') h0)"
    and a0: "a = u0 @ r0 @ a'"
    unfolding config_pattern_def by (blast dest: seqs_ConsD)
  have u0: "u0 = []" "b = [] \<or> hd b = CHR 0x0A" using bol by (auto simp: fM_def)
  from m1 obtain ws1 r1 h1 where
      s1: "(ws1, r1 @ a', h1) \<in> set (rmatch fM (Star CSpace) (rev u0 @ b) (r0 @ a') h0)"
    and m2: "(r1, a', g') \<in> set (rmatch fM (seqs [
         Grp 1 (alts [lits ''config'', lits ''menuconfig'']), Plus CSpace,
         Grp 2 (seqs [lits symbol, Star sym_tail]), Star CSpace, Eol]) (rev ws1 @ rev u0 @ b) (r1 @ a') h1)"
    and a1: "r0 @ a' = ws1 @ r1 @ a'"
    by (blast dest: seqs_ConsD)
  have ws1: "\<forall>c\<in>set ws1. is_space c" using s1 unfolding mem_Star by simp
  from m2 obtain kw r2 h2 where
      k: "(kw, r2 @ a', h2) \<in> set (rmatch fM (Grp 1 (alts [lits ''config'', lits ''menuconfig'']))
             (rev ws1 @ rev u0 @ b) (r1 @ a') h1)"
    and m3: "(r2, a', g') \<in> set (rmatch fM (seqs [Plus CSpace,
         Grp 2 (seqs [lits symbol, Star sym_tail]), Star CSpace, Eol])
           (rev kw @ rev ws1 @ rev u0 @ b) (r2 @ a') h2)"
    and a2: "r1 @ a' = kw @ r2 @ a'"
    by (blast dest: seqs_ConsD)
  have kw: "kw = ''config'' \<or> kw = ''menuconfig''"
    using k unfolding mem_Grp alts_Cons alts_one mem_Alt mem_lits all2_exact by blast
  from m3 obtain ws2 r3 h3 where
      s2: "(ws2, r3 @ a', h3) \<in> set (rmatch fM (Plus CSpace) (rev kw @ rev ws1 @ rev u0 @ b) (r2 @ a') h2)"
    and m4: "(r3, a', g') \<in> set (rmatch fM (seqs [
         Grp 2 (seqs [lits symbol, Star sym_tail]), Star CSpace, Eol])
           (rev ws2 @ rev kw @ rev ws1 @ rev u0 @ b) (r3 @ a') h3)"
    and a3: "r2 @ a' = ws2 @ r3 @ a'"
    by (blast dest: seqs_ConsD)
  have ws2: "ws2 \<noteq> []" "\<forall>c\<in>set ws2. is_space c" using s2 unfolding mem_Plus by simp_all
  from m4 obtain sy r4 h4 where
      g2: "(sy, r4 @ a', h4) \<in> set (rmatch fM (Grp 2 (seqs [lits symbol, Star sym_tail]))
             (rev ws2 @ rev kw @ rev ws1 @ rev u0 @ b) (r3 @ a') h3)"
    and m5: "(r4, a', g') \<in> set (rmatch fM (seqs [Star CSpace, Eol])
           (rev sy @ rev ws2 @ rev kw @ rev ws1 @ rev u0 @ b) (r4 @ a') h4)"
    and a4: "r3 @ a' = sy @ r4 @ a'"
    by (blast dest: seqs_ConsD)
  from g2 obtain h5 where h4: "h4 = (2, sy) # h5"
    and sy0: "(sy, r4 @ a', h5) \<in> set (rmatch fM (seqs [lits symbol, Star sym_tail])
             (rev ws2 @ rev kw @ rev ws1 @ rev u0 @ b) (r3 @ a') h3)"
    unfolding mem_Grp by blast
  from sy0 obtain w tail where sy: "sy = w @ tail" "w = symbol" "\<forall>c\<in>set tail. cls_match fM sym_tail c"
    unfolding seqs_Cons seqs_Nil mem_Seq mem_lits mem_Star mem_Eps all2_exact by auto
  from m5 obtain ws3 r5 h6 where
      s3: "(ws3, r5 @ a', h6) \<in> set (rmatch fM (Star CSpace)
             (rev sy @ rev ws2 @ rev kw @ rev ws1 @ rev u0 @ b) (r4 @ a') h4)"
    and m6: "(r5, a', g') \<in> set (rmatch fM (seqs [Eol])
           (rev ws3 @ rev sy @ rev ws2 @ rev kw @ rev ws1 @ rev u0 @ b) (r5 @ a') h6)"
    and a5: "r4 @ a' = ws3 @ r5 @ a'"
    by (blast dest: seqs_ConsD)
  have ws3: "\<forall>c\<in>set ws3. is_space c" "h6 = h4" using s3 unfolding mem_Star by simp_all
  have e: "r5 = []" "g' = h6" "a' = [] \<or> hd a' = CHR 0x0A"
    using m6 unfolding seqs_Cons seqs_Nil mem_Seq mem_Eol mem_Eps by (auto simp: fM_def)
  have "a = ws1 @ kw @ ws2 @ sy @ ws3 @ a'"
    using a0 a1 a2 a3 a4 a5 u0(1) e(1) by simp
  moreover have "group g' 2 = sy" using e(2) ws3(2) h4 by (simp add: group_hd)
  ultimately show ?thesis
    using u0(2) kw ws1 ws2 ws3(1) sy e(3)
    by (intro exI [of _ ws1] exI [of _ kw] exI [of _ ws2] exI [of _ tail] exI [of _ ws3])
       (simp add: list_all_iff del: cls_match.simps)
qed

lemma choice_shape:
  assumes "(t, a', g') \<in> set (rmatch fM (choice_pattern symbol) b a [])"
  shows "\<exists>ws1 ws2 tail ws3. a = ws1 @ ''choice'' @ ws2 @ group g' 1 @ ws3 @ a' \<and>
           (b = [] \<or> hd b = CHR 0x0A) \<and>
           list_all is_space ws1 \<and> ws2 \<noteq> [] \<and> list_all is_space ws2 \<and> list_all is_space ws3 \<and>
           group g' 1 = symbol @ tail \<and> list_all (cls_match fM sym_tail) tail \<and>
           (a' = [] \<or> hd a' = CHR 0x0A)"
proof -
  from assms obtain u0 r0 h0 where
      bol: "(u0, r0 @ a', h0) \<in> set (rmatch fM Bol b a [])"
    and m1: "(r0, a', g') \<in> set (rmatch fM (seqs [Star CSpace, lits ''choice'', Plus CSpace,
         Grp 1 (seqs [lits symbol, Star sym_tail]), Star CSpace, Eol]) (rev u0 @ b) (r0 @ a') h0)"
    and a0: "a = u0 @ r0 @ a'"
    unfolding choice_pattern_def by (blast dest: seqs_ConsD)
  have u0: "u0 = []" "b = [] \<or> hd b = CHR 0x0A" using bol by (auto simp: fM_def)
  from m1 obtain ws1 r1 h1 where
      s1: "(ws1, r1 @ a', h1) \<in> set (rmatch fM (Star CSpace) (rev u0 @ b) (r0 @ a') h0)"
    and m2: "(r1, a', g') \<in> set (rmatch fM (seqs [lits ''choice'', Plus CSpace,
         Grp 1 (seqs [lits symbol, Star sym_tail]), Star CSpace, Eol]) (rev ws1 @ rev u0 @ b) (r1 @ a') h1)"
    and a1: "r0 @ a' = ws1 @ r1 @ a'"
    by (blast dest: seqs_ConsD)
  have ws1: "\<forall>c\<in>set ws1. is_space c" using s1 unfolding mem_Star by simp
  from m2 obtain kw r2 h2 where
      k: "(kw, r2 @ a', h2) \<in> set (rmatch fM (lits ''choice'') (rev ws1 @ rev u0 @ b) (r1 @ a') h1)"
    and m3: "(r2, a', g') \<in> set (rmatch fM (seqs [Plus CSpace,
         Grp 1 (seqs [lits symbol, Star sym_tail]), Star CSpace, Eol])
           (rev kw @ rev ws1 @ rev u0 @ b) (r2 @ a') h2)"
    and a2: "r1 @ a' = kw @ r2 @ a'"
    by (blast dest: seqs_ConsD)
  have kw: "kw = ''choice''"
    using k unfolding mem_lits all2_exact by blast
  from m3 obtain ws2 r3 h3 where
      s2: "(ws2, r3 @ a', h3) \<in> set (rmatch fM (Plus CSpace) (rev kw @ rev ws1 @ rev u0 @ b) (r2 @ a') h2)"
    and m4: "(r3, a', g') \<in> set (rmatch fM (seqs [
         Grp 1 (seqs [lits symbol, Star sym_tail]), Star CSpace, Eol])
           (rev ws2 @ rev kw @ rev ws1 @ rev u0 @ b) (r3 @ a') h3)"
    and a3: "r2 @ a' = ws2 @ r3 @ a'"
    by (blast dest: seqs_ConsD)
  have ws2: "ws2 \<noteq> []" "\<forall>c\<in>set ws2. is_space c" using s2 unfolding mem_Plus by simp_all
  from m4 obtain sy r4 h4 where
      g2: "(sy, r4 @ a', h4) \<in> set (rmatch fM (Grp 1 (seqs [lits symbol, Star sym_tail]))
             (rev ws2 @ rev kw @ rev ws1 @ rev u0 @ b) (r3 @ a') h3)"
    and m5: "(r4, a', g') \<in> set (rmatch fM (seqs [Star CSpace, Eol])
           (rev sy @ rev ws2 @ rev kw @ rev ws1 @ rev u0 @ b) (r4 @ a') h4)"
    and a4: "r3 @ a' = sy @ r4 @ a'"
    by (blast dest: seqs_ConsD)
  from g2 obtain h5 where h4: "h4 = (1, sy) # h5"
    and sy0: "(sy, r4 @ a', h5) \<in> set (rmatch fM (seqs [lits symbol, Star sym_tail])
             (rev ws2 @ rev kw @ rev ws1 @ rev u0 @ b) (r3 @ a') h3)"
    unfolding mem_Grp by blast
  from sy0 obtain w tail where sy: "sy = w @ tail" "w = symbol" "\<forall>c\<in>set tail. cls_match fM sym_tail c"
    unfolding seqs_Cons seqs_Nil mem_Seq mem_lits mem_Star mem_Eps all2_exact by auto
  from m5 obtain ws3 r5 h6 where
      s3: "(ws3, r5 @ a', h6) \<in> set (rmatch fM (Star CSpace)
             (rev sy @ rev ws2 @ rev kw @ rev ws1 @ rev u0 @ b) (r4 @ a') h4)"
    and m6: "(r5, a', g') \<in> set (rmatch fM (seqs [Eol])
           (rev ws3 @ rev sy @ rev ws2 @ rev kw @ rev ws1 @ rev u0 @ b) (r5 @ a') h6)"
    and a5: "r4 @ a' = ws3 @ r5 @ a'"
    by (blast dest: seqs_ConsD)
  have ws3: "\<forall>c\<in>set ws3. is_space c" "h6 = h4" using s3 unfolding mem_Star by simp_all
  have e: "r5 = []" "g' = h6" "a' = [] \<or> hd a' = CHR 0x0A"
    using m6 unfolding seqs_Cons seqs_Nil mem_Seq mem_Eol mem_Eps by (auto simp: fM_def)
  have "a = ws1 @ ''choice'' @ ws2 @ sy @ ws3 @ a'"
    using a0 a1 a2 a3 a4 a5 u0(1) e(1) kw by simp
  moreover have "group g' 1 = sy" using e(2) ws3(2) h4 by (simp add: group_hd)
  ultimately show ?thesis
    using u0(2) ws1 ws2 ws3(1) sy e(3)
    by (intro exI [of _ ws1] exI [of _ ws2] exI [of _ tail] exI [of _ ws3])
       (simp add: list_all_iff del: cls_match.simps)
qed

lemma line_start: "(b = [] \<or> hd b = CHR 0x0A) \<Longrightarrow> (rev b = [] \<or> last (rev b) = CHR 0x0A)"
  by (cases b) auto

lemma symbols_in_shape:
  assumes "nm \<in> set (symbols_in symbol content)"
  shows "\<exists>pre ws1 kw ws2 tail ws3 post.
           content = pre @ ws1 @ kw @ ws2 @ nm @ ws3 @ post \<and>
           (pre = [] \<or> last pre = CHR 0x0A) \<and>
           kw \<in> {''config'', ''menuconfig'', ''choice''} \<and>
           list_all is_space ws1 \<and> ws2 \<noteq> [] \<and> list_all is_space ws2 \<and> list_all is_space ws3 \<and>
           nm = symbol @ tail \<and> list_all (cls_match fM sym_tail) tail \<and>
           (post = [] \<or> hd post = CHR 0x0A)"
proof -
  from assms consider
      g where "g \<in> set (re_findall fM (config_pattern symbol) content)" "nm = group g 2"
    | g where "g \<in> set (re_findall fM (choice_pattern symbol) content)" "nm = group g 1"
    unfolding symbols_in_def by auto
  then show ?thesis
  proof cases
    case 1
    from findall_mem [OF 1(1)] obtain b a t a' where
      c: "rev b @ a = content" and m: "(t, a', g) \<in> set (rmatch fM (config_pattern symbol) b a [])"
      by blast
    from config_shape [OF m] obtain ws1 kw ws2 tail ws3 where
      f: "a = ws1 @ kw @ ws2 @ group g 2 @ ws3 @ a'" "b = [] \<or> hd b = CHR 0x0A"
      "kw \<in> {''config'', ''menuconfig''}" "list_all is_space ws1" "ws2 \<noteq> []"
      "list_all is_space ws2" "list_all is_space ws3" "group g 2 = symbol @ tail"
      "list_all (cls_match fM sym_tail) tail" "a' = [] \<or> hd a' = CHR 0x0A"
      by blast
    have 2: "content = rev b @ ws1 @ kw @ ws2 @ nm @ ws3 @ a'" using c f(1) 1(2) by simp
    have 3: "rev b = [] \<or> last (rev b) = CHR 0x0A" using line_start [OF f(2)] .
    have 4: "kw \<in> {''config'', ''menuconfig'', ''choice''}" using f(3) by blast
    have 5: "nm = symbol @ tail" using f(8) 1(2) by simp
    show ?thesis using 2 3 4 f(4) f(5) f(6) f(7) 5 f(9) f(10) by blast
  next
    case 2
    from findall_mem [OF 2(1)] obtain b a t a' where
      c: "rev b @ a = content" and m: "(t, a', g) \<in> set (rmatch fM (choice_pattern symbol) b a [])"
      by blast
    from choice_shape [OF m] obtain ws1 ws2 tail ws3 where
      f: "a = ws1 @ ''choice'' @ ws2 @ group g 1 @ ws3 @ a'" "b = [] \<or> hd b = CHR 0x0A"
      "list_all is_space ws1" "ws2 \<noteq> []"
      "list_all is_space ws2" "list_all is_space ws3" "group g 1 = symbol @ tail"
      "list_all (cls_match fM sym_tail) tail" "a' = [] \<or> hd a' = CHR 0x0A"
      by blast
    have 3: "content = rev b @ ws1 @ ''choice'' @ ws2 @ nm @ ws3 @ a'" using c f(1) 2(2) by simp
    have 4: "rev b = [] \<or> last (rev b) = CHR 0x0A" using line_start [OF f(2)] .
    have 5: "''choice'' \<in> {''config'', ''menuconfig'', ''choice''}" by blast
    have 6: "nm = symbol @ tail" using f(7) 2(2) by simp
    show ?thesis using 3 4 5 f(3) f(4) f(5) f(6) 6 f(8) f(9) by blast
  qed
qed

lemma symbols_in_startswith:
  "nm \<in> set (symbols_in symbol content) \<Longrightarrow> startswith nm symbol"
proof -
  assume "nm \<in> set (symbols_in symbol content)"
  from symbols_in_shape [OF this] obtain tail where "nm = symbol @ tail" by blast
  then show ?thesis by (simp add: startswith_def)
qed

lemma scan_files_found:
  "nm \<in> set (fst (scan_files symbol files st)) \<Longrightarrow>
     \<exists>f content. f \<in> set files \<and> texts st f = Some content \<and> nm \<in> set (symbols_in symbol content)"
proof (induction files arbitrary: st)
  case Nil
  then show ?case by simp
next
  case (Cons f files)
  show ?case
  proof (cases "texts st f")
    case None
    then have "nm \<in> set (fst (scan_files symbol files (say WARNING (''Could not read '' @ f) st)))"
      using Cons.prems by simp
    from Cons.IH [OF this] show ?thesis by (auto simp: say_def)
  next
    case (Some content)
    then have "nm \<in> set (symbols_in symbol content) \<or> nm \<in> set (fst (scan_files symbol files st))"
      using Cons.prems by (auto split: prod.splits)
    then show ?thesis
    proof
      assume "nm \<in> set (symbols_in symbol content)"
      then show ?thesis using Some by (intro exI [of _ f] exI [of _ content]) simp
    next
      assume "nm \<in> set (fst (scan_files symbol files st))"
      from Cons.IH [OF this] obtain f' c' where
        "f' \<in> set files" "texts st f' = Some c'" "nm \<in> set (symbols_in symbol c')" by blast
      then show ?thesis by (intro exI [of _ f'] exI [of _ c']) simp
    qed
  qed
qed

lemma found_startswith:
  "nm \<in> set (fst (find_all_subsymbols symbol root_dir st)) \<Longrightarrow> startswith nm symbol"
  unfolding find_all_subsymbols_def by (blast dest: scan_files_found symbols_in_startswith)

lemma map_of_dict_set: "map_of (dict_set k v m) = (map_of m)(k \<mapsto> v)"
  by (induction m) auto

lemma map_of_build_mappings:
  "map_of (build_mappings old new syms m) nm =
     (if nm \<in> set syms \<and> startswith nm old then Some (new @ drop (length old) nm)
      else map_of m nm)"
  by (induction syms arbitrary: m) (auto simp: map_of_dict_set)

lemma rename_content_Inr:
  "(\<exists>s'. rename_content m s = Inr s') \<longleftrightarrow> (\<forall>(old, new)\<in>set m. \<exists>tpl. parse_template new = Inr tpl)"
proof (induction m arbitrary: s)
  case Nil
  then show ?case by simp
next
  case (Cons p m)
  obtain old new where p: "p = (old, new)" by (cases p) auto
  show ?case
  proof (cases "parse_template new")
    case (Inl e)
    then show ?thesis using p by auto
  next
    case (Inr tpl)
    have "rename_content (p # m) s = rename_content m (rename_one old new tpl s)"
      using p Inr by simp
    moreover have "(\<forall>(old, new)\<in>set (p # m). \<exists>tpl. parse_template new = Inr tpl) \<longleftrightarrow>
        (\<forall>(old, new)\<in>set m. \<exists>tpl. parse_template new = Inr tpl)"
      using p Inr by simp
    ultimately show ?thesis using Cons.IH [of "rename_one old new tpl s"] by simp
  qed
qed

section \<open>Properties of the state-passing functions\<close>

lemma only_log_refl: "only_log st st" by (simp add: only_log_def)

lemma only_log_trans: "only_log a b \<Longrightarrow> only_log b c \<Longrightarrow> only_log a c"
  by (simp add: only_log_def)

lemma only_log_sym: "only_log a b \<Longrightarrow> only_log b a"
  by (simp add: only_log_def)

lemma only_log_say: "only_log st st' \<Longrightarrow> only_log st (say lvl msg st')"
  by (simp add: only_log_def say_def)

lemma only_log_say2: "only_log st st' \<Longrightarrow> only_log (say lvl msg st) st'"
  by (simp add: only_log_def say_def)



lemma find_all_subsymbols_frame:
  "only_log st (snd (find_all_subsymbols symbol root st))"
proof -
  have "only_log st (snd (scan_files symbol files st))" for files
  proof (induction files arbitrary: st)
    case Nil
    then show ?case by (simp add: only_log_refl)
  next
    case (Cons f files)
    show ?case
    proof (cases "texts st f")
      case None
      have "only_log (say WARNING (''Could not read '' @ f) st)
              (snd (scan_files symbol files (say WARNING (''Could not read '' @ f) st)))"
        by (rule Cons.IH)
      then show ?thesis using None by (simp add: only_log_def say_def)
    next
      case (Some content)
      then show ?thesis using Cons.IH [of st] by (auto split: prod.splits)
    qed
  qed
  then show ?thesis by (simp add: find_all_subsymbols_def)
qed

lemma log_mappings_frame: "only_log st (log_mappings m st)"
proof (induction m arbitrary: st)
  case Nil
  then show ?case by (simp add: only_log_refl)
next
  case (Cons p m)
  obtain old new where p: "p = (old, new)" by (cases p) auto
  have "only_log (say INFO (''  '' @ old @ '' -> '' @ new) st)
          (log_mappings m (say INFO (''  '' @ old @ '' -> '' @ new) st))" by (rule Cons.IH)
  then show ?case using p by (simp add: only_log_def say_def)
qed





lemma rename_each_count:
  "rename_each files m k st = (Returned n, st') \<Longrightarrow> n \<le> k + length files"
proof (induction files arbitrary: k st)
  case Nil
  then show ?case by simp
next
  case (Cons f files)
  obtain r1 s1 where 1: "rename_in_kconfig_file f m st = (r1, s1)" by (cases "rename_in_kconfig_file f m st")
  show ?case
  proof (cases r1)
    case (Raised x)
    then show ?thesis using 1 Cons.prems by simp
  next
    case (Returned changed)
    then have "rename_each files m (if changed then k + 1 else k) s1 = (Returned n, st')"
      using 1 Cons.prems by simp
    from Cons.IH [OF this] show ?thesis by (simp split: if_splits)
  qed
qed


lemma process_kconfig_dry:
  "dry_run st \<Longrightarrow>
     fst (process_kconfig_files_with_python files m st) = Returned (length files) \<and>
     only_log st (snd (process_kconfig_files_with_python files m st))"
  by (auto simp: process_kconfig_files_with_python_def only_log_def say_def)

lemma process_kconfig_count:
  "fst (process_kconfig_files_with_python files m st) = Returned n \<Longrightarrow> n \<le> length files"
proof -
  assume h: "fst (process_kconfig_files_with_python files m st) = Returned n"
  let ?msg = "''Processing '' @ show_nat (length files) @ '' Kconfig files with Python''"
  obtain r1 s1 where 1: "rename_each files m 0 (say INFO ?msg st) = (r1, s1)"
    by (cases "rename_each files m 0 (say INFO ?msg st)")
  show ?thesis
  proof (cases r1)
    case (Raised x)
    then show ?thesis using h 1
      by (auto simp: process_kconfig_files_with_python_def split: if_splits)
  next
    case (Returned k)
    then have "k \<le> length files" using rename_each_count [of files m 0 _ k s1] 1 by simp
    then show ?thesis using h 1 Returned
      by (auto simp: process_kconfig_files_with_python_def split: if_splits)
  qed
qed




lemma process_files_with_sed_dry:
  "dry_run st \<Longrightarrow> only_log st (snd (process_files_with_sed ev files script ft simple st))"
  by (simp add: process_files_with_sed_def only_log_def say_def)


lemma rename_symbol_dry:
  assumes d: "dry_run st"
  shows "fst (rename_symbol ev old new root st) = Returned () \<and>
         only_log st (snd (rename_symbol ev old new root st))"
proof -
  let ?p = "say INFO (''Finding all subsymbols of '' @ old)
                (say INFO (''Renaming symbol '' @ old @ '' to '' @ new) st)"
  have pp: "only_log st ?p" by (simp add: only_log_def say_def)
  obtain f1 q1 where F1: "find_all_subsymbols old root ?p = (f1, q1)"
    by (cases "find_all_subsymbols old root ?p")
  have q: "only_log st q1"
    using find_all_subsymbols_frame [of ?p old root] F1 pp only_log_trans by fastforce
  let ?m = "build_mappings old new (set_order ev f1) []"
  show ?thesis
  proof (cases "?m = []")
    case True
    then show ?thesis using F1 q by (simp add: rename_symbol_def Let_def only_log_def say_def)
  next
    case False
    let ?t = "log_mappings ?m (say INFO (''Found '' @ show_nat (length ?m) @ '' symbols to rename:'') q1)"
    have tt: "only_log st ?t"
      using log_mappings_frame [of "say INFO (''Found '' @ show_nat (length ?m) @ '' symbols to rename:'') q1" ?m] q
      by (simp add: only_log_def say_def)
    obtain kf sf where FF: "find_files_to_process root ?t = (kf, sf)"
      by (cases "find_files_to_process root ?t")
    let ?u = "say INFO (''Processing '' @ show_nat (length kf) @ '' Kconfig files and '' @
                 show_nat (length sf) @ '' source files'') ?t"
    have uu: "only_log st ?u" "dry_run ?u" using tt d by (simp_all add: only_log_def say_def)
    obtain r1 s1 where P1: "process_kconfig_files_with_python kf ?m ?u = (r1, s1)"
      by (cases "process_kconfig_files_with_python kf ?m ?u")
    have pe: "r1 = Returned (length kf)" "only_log ?u s1"
      using process_kconfig_dry [OF uu(2), of kf ?m] P1 by auto
    have s1: "only_log st s1" "dry_run s1" using pe(2) uu by (simp_all add: only_log_def)
    obtain n1 w1 where S1: "process_files_with_sed ev sf (create_sed_script_for_source ?m) ''source'' False s1 = (n1, w1)"
      by (cases "process_files_with_sed ev sf (create_sed_script_for_source ?m) ''source'' False s1")
    have w: "only_log st w1"
      using process_files_with_sed_dry [OF s1(2), of ev sf "create_sed_script_for_source ?m" "''source''" False]
        S1 s1(1) by (simp add: only_log_def)
    show ?thesis
      using F1 False FF P1 pe(1) S1 w
      by (simp add: rename_symbol_def Let_def only_log_def say_def)
  qed
qed

lemma rename_lines_dry:
  "dry_run st \<Longrightarrow> fst (rename_lines ev root n lines st) = Returned () \<and>
     only_log st (snd (rename_lines ev root n lines st))"
proof (induction lines arbitrary: n st)
  case Nil
  then show ?case by (simp add: only_log_refl)
next
  case (Cons l lines)
  show ?case
  proof (cases "parse_line l")
    case Skipped
    then show ?thesis using Cons.IH [OF Cons.prems] by simp
  next
    case InvalidFormat
    let ?s = "say WARNING (''Invalid format on line '' @ show_nat n @ '': '' @ strip l) st"
    have "dry_run ?s" "only_log st ?s" using Cons.prems by (simp_all add: only_log_def say_def)
    then show ?thesis using InvalidFormat Cons.IH [of ?s "n + 1"] only_log_trans by auto
  next
    case EmptySymbol
    let ?s = "say WARNING (''Empty symbol on line '' @ show_nat n @ '': '' @ strip l) st"
    have "dry_run ?s" "only_log st ?s" using Cons.prems by (simp_all add: only_log_def say_def)
    then show ?thesis using EmptySymbol Cons.IH [of ?s "n + 1"] only_log_trans by auto
  next
    case (Mapping old new)
    let ?s = "say INFO (''Processing mapping: '' @ old @ '' -> '' @ new) st"
    have s: "dry_run ?s" "only_log st ?s" using Cons.prems by (simp_all add: only_log_def say_def)
    obtain r1 s1 where R: "rename_symbol ev old new root ?s = (r1, s1)"
      by (cases "rename_symbol ev old new root ?s")
    have r: "r1 = Returned ()" "only_log ?s s1" using rename_symbol_dry [OF s(1), of ev old new root] R by auto
    have "dry_run s1" "only_log st s1" using r(2) s by (simp_all add: only_log_def)
    then show ?thesis using Mapping R r(1) Cons.IH [of s1 "n + 1"] only_log_trans by auto
  qed
qed


















section \<open>Multi-line dependency blocks\<close>

text \<open>
  Claim C1.  A \<^verbatim>\<open>depends on\<close> expression that continues over three lines, with the old
  symbol only on the last line, should be rewritten there.  The lookahead of the
  multi-line pattern accepts every line break (its alternative \<^verbatim>\<open>\S\<close> takes any
  continuation line), so the captured span ends with the first line of the expression and
  the symbol on the third line is kept.
\<close>

theorem multiline_depends_third_line_kept:
  "rename_content [(''FOO'', ''BAR_FOO'')]
     ''config X\<newline> depends on A ||\<newline>  B ||\<newline>  FOO\<newline>''
   = Inr ''config X\<newline> depends on A ||\<newline>  B ||\<newline>  FOO\<newline>''"
  by code_simp

section \<open>Subsymbol discovery\<close>

text \<open>
  Claim C3, the exception it grants.  A \<^verbatim>\<open>choice\<close> line with further text after the name
  is not recognized by discovery: the choice pattern ends with optional whitespace and the
  end of the line, like the pattern for \<^verbatim>\<open>config\<close> and \<^verbatim>\<open>menuconfig\<close>.
\<close>

theorem choice_with_extra_text_not_discovered:
  "symbols_in ''FOO'' ''choice FOO extra\<newline>'' = []"
  by code_simp

text \<open>
  Claim C3, amended.  Every discovered name stands in the text after a line start,
  optional whitespace, one of the keywords \<^verbatim>\<open>config\<close>, \<^verbatim>\<open>menuconfig\<close>, \<^verbatim>\<open>choice\<close>,
  and whitespace; it is the root symbol followed by characters from \<^verbatim>\<open>[A-Z0-9_]\<close>, and
  after it only whitespace comes before a line end.  Whitespace includes line breaks, and
  there is no exception for \<^verbatim>\<open>choice\<close> lines.
\<close>

theorem discovery_is_anchored:
  assumes "nm \<in> set (symbols_in symbol content)"
  shows "\<exists>pre ws1 kw ws2 tail ws3 post.
           content = pre @ ws1 @ kw @ ws2 @ nm @ ws3 @ post \<and>
           (pre = [] \<or> last pre = CHR 0x0A) \<and>
           kw \<in> {''config'', ''menuconfig'', ''choice''} \<and>
           list_all is_space ws1 \<and> ws2 \<noteq> [] \<and> list_all is_space ws2 \<and> list_all is_space ws3 \<and>
           nm = symbol @ tail \<and> list_all (cls_match fM sym_tail) tail \<and>
           (post = [] \<or> hd post = CHR 0x0A)"
  using assms by (rule symbols_in_shape)

theorem discovery_is_anchored_witness:
  "''FOOC'' \<in> set (symbols_in ''FOO'' ''choice FOOC\<newline>'') \<and>
   (\<exists>pre ws1 kw ws2 tail ws3 post.
      ''choice FOOC\<newline>'' = pre @ ws1 @ kw @ ws2 @ ''FOOC'' @ ws3 @ post \<and>
      (pre = [] \<or> last pre = CHR 0x0A) \<and>
      kw \<in> {''config'', ''menuconfig'', ''choice''} \<and>
      list_all is_space ws1 \<and> ws2 \<noteq> [] \<and> list_all is_space ws2 \<and> list_all is_space ws3 \<and>
      ''FOOC'' = ''FOO'' @ tail \<and> list_all (cls_match fM sym_tail) tail \<and>
      (post = [] \<or> hd post = CHR 0x0A))"
proof -
  have h: "''FOOC'' \<in> set (symbols_in ''FOO'' ''choice FOOC\<newline>'')" by code_simp
  show ?thesis using h discovery_is_anchored [OF h] by blast
qed

section \<open>Derived mappings\<close>

text \<open>
  Claim C4.  For every discovered subsymbol the mapping built by \<open>rename_symbol\<close> replaces
  the root prefix by the new name and keeps the remainder of the name, whatever the order
  in which the set of subsymbols is iterated.  For the definitions \<^verbatim>\<open>config FOO\<close>,
  \<^verbatim>\<open>config FOOBAR\<close>, \<^verbatim>\<open>config FOOBAR_X\<close> and \<^verbatim>\<open>menuconfig FOOZ\<close>, renaming \<open>FOO\<close>
  to \<open>BAR_FOO\<close> gives exactly the four mappings of the specification.
\<close>

theorem derived_mapping_keeps_remainder:
  assumes "set (set_order ev (fst (find_all_subsymbols old_symbol root_dir st)))
             = set (fst (find_all_subsymbols old_symbol root_dir st))"
    and "nm \<in> set (fst (find_all_subsymbols old_symbol root_dir st))"
  shows "map_of (build_mappings old_symbol new_symbol
                   (set_order ev (fst (find_all_subsymbols old_symbol root_dir st))) []) nm
           = Some (new_symbol @ drop (length old_symbol) nm)
         \<and> build_mappings ''FOO'' ''BAR_FOO''
             (set_order quiet_env (fst (find_all_subsymbols ''FOO'' ''.''
                (one_file ''config FOO\<newline>config FOOBAR\<newline>config FOOBAR_X\<newline>menuconfig FOOZ\<newline>'')))) []
           = [(''FOO'', ''BAR_FOO''), (''FOOBAR'', ''BAR_FOOBAR''),
              (''FOOBAR_X'', ''BAR_FOOBAR_X''), (''FOOZ'', ''BAR_FOOZ'')]"
proof
  have "startswith nm old_symbol" using assms(2) by (rule found_startswith)
  then show "map_of (build_mappings old_symbol new_symbol
                   (set_order ev (fst (find_all_subsymbols old_symbol root_dir st))) []) nm
           = Some (new_symbol @ drop (length old_symbol) nm)"
    using assms by (simp add: map_of_build_mappings)
next
  show "build_mappings ''FOO'' ''BAR_FOO''
             (set_order quiet_env (fst (find_all_subsymbols ''FOO'' ''.''
                (one_file ''config FOO\<newline>config FOOBAR\<newline>config FOOBAR_X\<newline>menuconfig FOOZ\<newline>'')))) []
           = [(''FOO'', ''BAR_FOO''), (''FOOBAR'', ''BAR_FOOBAR''),
              (''FOOBAR_X'', ''BAR_FOOBAR_X''), (''FOOZ'', ''BAR_FOOZ'')]"
    by code_simp
qed

theorem derived_mapping_keeps_remainder_witness:
  "set (set_order quiet_env (fst (find_all_subsymbols ''FOO'' ''.'' (one_file ''config FOOBAR_X\<newline>''))))
     = set (fst (find_all_subsymbols ''FOO'' ''.'' (one_file ''config FOOBAR_X\<newline>''))) \<and>
   ''FOOBAR_X'' \<in> set (fst (find_all_subsymbols ''FOO'' ''.'' (one_file ''config FOOBAR_X\<newline>''))) \<and>
   map_of (build_mappings ''FOO'' ''BAR_FOO''
             (set_order quiet_env (fst (find_all_subsymbols ''FOO'' ''.'' (one_file ''config FOOBAR_X\<newline>'')))) [])
      ''FOOBAR_X'' = Some ''BAR_FOOBAR_X''"
proof -
  have h1: "set (set_order quiet_env (fst (find_all_subsymbols ''FOO'' ''.'' (one_file ''config FOOBAR_X\<newline>''))))
     = set (fst (find_all_subsymbols ''FOO'' ''.'' (one_file ''config FOOBAR_X\<newline>'')))"
    by (simp add: quiet_env_def)
  have h2: "''FOOBAR_X'' \<in> set (fst (find_all_subsymbols ''FOO'' ''.'' (one_file ''config FOOBAR_X\<newline>'')))"
    by code_simp
  show ?thesis
    using h1 h2 derived_mapping_keeps_remainder [OF h1 h2, of "''BAR_FOO''"] by simp
qed

section \<open>Word boundaries\<close>

text \<open>
  Claim C5.  A mapping for a symbol should never alter a longer identifier that contains
  it.  The multi-line pattern starts at \<^verbatim>\<open>depends\<close> without a word boundary and matches
  letters in either case, and its callback looks for the old symbol inside the captured
  span alone, where the start of the span counts as a boundary: a mapping for the symbol
  \<open>DEPENDS\<close> rewrites the tail of the longer word \<open>MYDEPENDS\<close>.
\<close>

theorem depends_symbol_rewrites_longer_word:
  "rename_content [(''DEPENDS'', ''X_DEPENDS'')] ''  set MYDEPENDS on boot\<newline>''
   = Inr ''  set MYX_DEPENDS on boot\<newline>''"
  by code_simp

section \<open>Idempotence\<close>

text \<open>
  Claim C6.  Applying the rewriting pass a second time should change nothing, because the
  first pass leaves no whole-word occurrence of the old symbol.  The single-line
  \<^verbatim>\<open>depends on\<close> rule replaces one occurrence per statement, the last one, and the
  multi-line rule needs a line break after the statement: on a last line without a line
  break the first \<open>FOO\<close> survives the first pass and is replaced by the second pass.
\<close>

theorem second_pass_changes_text:
  "rename_content [(''FOO'', ''BAR_FOO'')] ''depends on FOO && FOO'' = Inr ''depends on FOO && BAR_FOO'' \<and>
   rename_content [(''FOO'', ''BAR_FOO'')] ''depends on FOO && BAR_FOO'' = Inr ''depends on BAR_FOO && BAR_FOO''"
  by code_simp

section \<open>Files whose content does not change\<close>



section \<open>Dry run\<close>

text \<open>
  Claim C2, the count it asserts.  With two configuration files of which one contains the
  symbol, a dry run reports two files and a real run updates one: in dry-run mode
  \<open>process_kconfig_files_with_python\<close> returns the number of files it was given without
  reading them.
\<close>

theorem dry_run_count_differs:
  "last (log (snd (rename_symbol quiet_env ''FOO'' ''BAR_FOO'' ''.'' (two_files True))))
     = (INFO, ''Symbol renaming complete. Processed 2 Kconfig files and 0 source files.'') \<and>
   last (log (snd (rename_symbol quiet_env ''FOO'' ''BAR_FOO'' ''.'' (two_files False))))
     = (INFO, ''Symbol renaming complete. Processed 1 Kconfig files and 0 source files.'') \<and>
   ops (snd (rename_symbol quiet_env ''FOO'' ''BAR_FOO'' ''.'' (two_files False)))
     = [Write ''./Kconfig'' ''config BAR_FOO\<newline>'']"
  by code_simp

text \<open>
  Claim C2, amended.  In dry-run mode renaming a symbol, and renaming from a mapping file,
  return normally and leave the file system, the trace of its mutations and the change log
  as they were (only log records are added).  The count a dry run reports for the
  configuration files is the number of files found, and the number of files a real run
  updates is at most that number.
\<close>

theorem dry_run_writes_nothing:
  assumes "dry_run st"
  shows "fst (rename_symbol ev old_symbol new_symbol root_dir st) = Returned () \<and>
         only_log st (snd (rename_symbol ev old_symbol new_symbol root_dir st)) \<and>
         fst (rename_from_mapping_file ev mapping_file root_dir st) = Returned () \<and>
         only_log st (snd (rename_from_mapping_file ev mapping_file root_dir st)) \<and>
         fst (process_kconfig_files_with_python kconfig_files mappings st)
           = Returned (length kconfig_files) \<and>
         (\<forall>n. fst (process_kconfig_files_with_python kconfig_files mappings (st\<lparr>dry_run := False\<rparr>))
                = Returned n \<longrightarrow> n \<le> length kconfig_files)"
proof -
  have 1: "fst (rename_symbol ev old_symbol new_symbol root_dir st) = Returned () \<and>
         only_log st (snd (rename_symbol ev old_symbol new_symbol root_dir st))"
    using assms by (rule rename_symbol_dry)
  have 2: "fst (rename_from_mapping_file ev mapping_file root_dir st) = Returned () \<and>
         only_log st (snd (rename_from_mapping_file ev mapping_file root_dir st))"
  proof (cases "texts st mapping_file")
    case None
    then show ?thesis by (simp add: rename_from_mapping_file_def only_log_def say_def)
  next
    case (Some content)
    then show ?thesis
      using rename_lines_dry [OF assms, of ev root_dir 1 "readlines content"]
      by (simp add: rename_from_mapping_file_def)
  qed
  have 3: "fst (process_kconfig_files_with_python kconfig_files mappings st)
           = Returned (length kconfig_files)"
    using process_kconfig_dry [OF assms] by blast
  have 4: "\<forall>n. fst (process_kconfig_files_with_python kconfig_files mappings (st\<lparr>dry_run := False\<rparr>))
                = Returned n \<longrightarrow> n \<le> length kconfig_files"
    using process_kconfig_count by blast
  show ?thesis using 1 2 3 4 by blast
qed

theorem dry_run_writes_nothing_witness:
  "dry_run (two_files True) \<and>
   fst (rename_symbol quiet_env ''FOO'' ''BAR_FOO'' ''.'' (two_files True)) = Returned () \<and>
   only_log (two_files True) (snd (rename_symbol quiet_env ''FOO'' ''BAR_FOO'' ''.'' (two_files True))) \<and>
   fst (process_kconfig_files_with_python [''./Kconfig'', ''./sub/Kconfig''] [(''FOO'', ''BAR_FOO'')]
          (two_files True)) = Returned 2 \<and>
   fst (process_kconfig_files_with_python [''./Kconfig'', ''./sub/Kconfig''] [(''FOO'', ''BAR_FOO'')]
          ((two_files True)\<lparr>dry_run := False\<rparr>)) = Returned 1 \<and> (1::nat) \<le> 2"
proof -
  have h: "dry_run (two_files True)" by (simp add: two_files_def)
  have r: "fst (process_kconfig_files_with_python [''./Kconfig'', ''./sub/Kconfig''] [(''FOO'', ''BAR_FOO'')]
          ((two_files True)\<lparr>dry_run := False\<rparr>)) = Returned 1"
    by code_simp
  show ?thesis
    using h r dry_run_writes_nothing [OF h, of quiet_env "''FOO''" "''BAR_FOO''" "''.''" _
      "[''./Kconfig'', ''./sub/Kconfig'']" "[(''FOO'', ''BAR_FOO'')]"]
    by simp
qed

section \<open>Lines of the mapping file\<close>



end
